theory Spec2Isabelle
  imports Complex_Main "HOL-Library.Log_Nat"
begin

section \<open>The actor of \<^verbatim>\<open>src/main.py\<close>: page planning and the two request handlers\<close>

text \<open>
  The program is one coroutine, \<^verbatim>\<open>main\<close>. It reads \<^verbatim>\<open>maxArticles\<close> from the actor
  input, computes how many listing pages to visit and their URLs, configures the crawler
  with a request budget, and registers two handlers: the default one for listing pages
  and the one labelled \<^verbatim>\<open>ARTICLE\<close> for article pages.

  Exceptions are values: a function that can raise returns \<open>error + 'a\<close>, with \<open>Inl\<close>
  the exception. Calls on the platform (logging, enqueueing links, pushing data, charging,
  the language-model request) are recorded in an explicit \<open>world\<close> that is passed through.
\<close>

subsection \<open>Exceptions\<close>

datatype error =
  ZeroDivisionError
  | OverflowError
  | APIError string

subsection \<open>Python's \<^verbatim>\<open>str\<close> on integers\<close>

definition digit_char :: "nat \<Rightarrow> char" where
  "digit_char d = ''0123456789'' ! d"

fun str_nat :: "nat \<Rightarrow> string" where
  "str_nat n =
     (if n < 10 then [digit_char n]
      else str_nat (n div 10) @ [digit_char (n mod 10)])"

declare str_nat.simps [simp del]

definition str_int :: "int \<Rightarrow> string" where
  "str_int i = (if i < 0 then CHR ''-'' # str_nat (nat (- i)) else str_nat (nat i))"

text \<open>Reading a decimal numeral back; used only to show that \<open>str_nat\<close> is injective.\<close>

definition digit_val :: "char \<Rightarrow> nat" where
  "digit_val c = of_char c - 48"

definition nat_of_str :: "string \<Rightarrow> nat" where
  "nat_of_str s = foldl (\<lambda>a c. 10 * a + digit_val c) 0 s"

subsection \<open>Planning: lines 44 to 57 of \<^verbatim>\<open>main\<close>\<close>

text \<open>
  \<^verbatim>\<open>
  ARTICLES_PER_PAGE = 24
  actor_input = await Actor.get_input() or {}
  max_articles = actor_input.get("maxArticles", ARTICLES_PER_PAGE)
  total_pages = ceil(max_articles / ARTICLES_PER_PAGE)
  base_url = "https://www.wired.com/tag/programming"
  start_urls = [
      base_url if page == 1 else f"{base_url}/?page={page}"
      for page in range(1, total_pages + 1)
  ]
  crawler = BeautifulSoupCrawler(max_requests_per_crawl=max_articles + total_pages)
  \<close>
  The input is a dictionary or nothing; \<^verbatim>\<open>maxArticles\<close> is an integer (Python's
  unbounded \<^verbatim>\<open>int\<close>, here \<open>int\<close>). The planning is written once with the base URL and
  the page size as arguments (\<open>plan_pages\<close>) and \<open>main_plan\<close> is the instance that
  \<^verbatim>\<open>main\<close> runs.
\<close>

subsubsection \<open>True division of integers\<close>

text \<open>
  Python's \<^verbatim>\<open>/\<close> on two integers raises \<^verbatim>\<open>ZeroDivisionError\<close> on a zero divisor and
  otherwise yields the double nearest to the exact quotient, ties going to the even
  significand; when that double would be \<open>2 ^ 1024\<close> or more it raises
  \<^verbatim>\<open>OverflowError\<close>. A double is an integer multiple \<open>m * 2 ^ p\<close> with \<open>\<bar>m\<bar> \<le> 2 ^ 53\<close>
  and \<open>p \<ge> - 1074\<close>: for a quotient \<open>x\<close> with \<open>2 ^ e \<le> x < 2 ^ (e + 1)\<close> the spacing of
  the doubles around it is \<open>2 ^ p\<close> with \<open>p = max (e - 52) (- 1074)\<close>. The result is
  kept as the real number it denotes.

  \<open>half_even\<close> rounds a real to the nearest integer, ties to even; \<open>exponent a b\<close> is
  \<open>e\<close> for the quotient of two positive integers, found from their bit lengths;
  \<open>round_double a b\<close> is the double nearest to \<open>a / b\<close> for positive \<open>a\<close> and \<open>b\<close>.
  \<^verbatim>\<open>math.ceil\<close> of a double is exact.
\<close>

definition half_even :: "real \<Rightarrow> int" where
  "half_even x =
     (let f = \<lfloor>x\<rfloor>; d = x - of_int f
      in if d < 1 / 2 then f
         else if 1 / 2 < d then f + 1
         else if even f then f else f + 1)"

definition exponent :: "int \<Rightarrow> int \<Rightarrow> int" where
  "exponent a b =
     (let d = bitlen a - bitlen b
      in if b * 2 ^ nat d \<le> a * 2 ^ nat (- d) then d else d - 1)"

definition round_double :: "int \<Rightarrow> int \<Rightarrow> real" where
  "round_double a b =
     (let p = max (exponent a b - 52) (- 1074)
      in of_int (half_even (of_int a / of_int b / 2 powi p)) * 2 powi p)"

definition truediv :: "int \<Rightarrow> int \<Rightarrow> error + real" where
  "truediv a b =
     (if b = 0 then Inl ZeroDivisionError
      else if a = 0 then Inr 0
      else (let r = round_double \<bar>a\<bar> \<bar>b\<bar>
            in if 2 ^ 1024 \<le> r then Inl OverflowError
               else Inr (of_int (sgn a * sgn b) * r)))"

definition ceil :: "real \<Rightarrow> int" where
  "ceil x = \<lceil>x\<rceil>"

subsubsection \<open>The plan\<close>

definition ARTICLES_PER_PAGE :: int where
  "ARTICLES_PER_PAGE = 24"

definition base_url :: string where
  "base_url = ''https://www.wired.com/tag/programming''"

record plan =
  max_articles :: int
  total_pages :: int
  start_urls :: "string list"
  max_requests_per_crawl :: int

definition seed_url :: "string \<Rightarrow> int \<Rightarrow> string" where
  "seed_url base page = (if page = 1 then base else base @ ''/?page='' @ str_int page)"

definition total_pages_of :: "int \<Rightarrow> int \<Rightarrow> error + int" where
  "total_pages_of n per_page =
     (case truediv n per_page of
        Inl e \<Rightarrow> Inl e
      | Inr q \<Rightarrow> Inr (ceil q))"

definition plan_pages :: "string \<Rightarrow> int \<Rightarrow> int \<Rightarrow> error + plan" where
  "plan_pages base n per_page =
     (case total_pages_of n per_page of
        Inl e \<Rightarrow> Inl e
      | Inr pages \<Rightarrow>
          Inr \<lparr>max_articles = n,
               total_pages = pages,
               start_urls = map (seed_url base) [1..pages],
               max_requests_per_crawl = n + pages\<rparr>)"

definition get_max_articles :: "(string \<rightharpoonup> int) option \<Rightarrow> int" where
  "get_max_articles actor_input =
     (let d = (case actor_input of None \<Rightarrow> Map.empty | Some d \<Rightarrow> d)
      in case d ''maxArticles'' of None \<Rightarrow> ARTICLES_PER_PAGE | Some v \<Rightarrow> v)"

definition main_plan :: "(string \<rightharpoonup> int) option \<Rightarrow> error + plan" where
  "main_plan actor_input = plan_pages base_url (get_max_articles actor_input) ARTICLES_PER_PAGE"

subsection \<open>What the handlers see and what they change\<close>

text \<open>
  A fetched page, as far as the handlers look at it: the URL of the request, the links
  in the document (the engine reads them when asked to enqueue), and the outcome of the
  two \<^verbatim>\<open>select_one\<close> calls of the article handler. \<^verbatim>\<open>select_one\<close> yields an element or
  \<^verbatim>\<open>None\<close>; an element is represented by what \<^verbatim>\<open>get_text(strip=True)\<close> returns on it.
  An element is truthy in Python whatever its text is, so \<^verbatim>\<open>x if el else None\<close> tests
  presence only.
\<close>

datatype element = Element (get_text: string)

record page =
  request_url :: string
  links :: "string list"
  title_el :: "element option"
  content_el :: "element option"

text \<open>The dictionary \<^verbatim>\<open>data\<close> that the article handler pushes.\<close>

record article =
  title :: "string option"
  content :: "string option"
  url :: string
  summary :: "string option"

text \<open>
  The language-model client: \<^verbatim>\<open>client.responses.create(model=..., input=...)\<close> either
  raises or returns a response object, of which the handler reads \<^verbatim>\<open>output_text\<close>.
  A response object is truthy.
\<close>

record response =
  output_text :: string

type_synonym llm = "string \<Rightarrow> string \<Rightarrow> error + response"

text \<open>
  The world outside the handlers: the log, the request queue of the crawler (URL and
  label), the requests made to the language model (model and input), the dataset that
  \<^verbatim>\<open>push_data\<close> appends to, and the events charged. Logging, enqueueing, pushing and
  charging are taken to succeed; the source handles no failure of theirs.
\<close>

record world =
  logged :: "string list"
  queue :: "(string \<times> string option) list"
  llm_calls :: "(string \<times> string) list"
  dataset :: "article list"
  charged :: "string list"

definition log_info :: "string \<Rightarrow> world \<Rightarrow> world" where
  "log_info msg w = w\<lparr>logged := logged w @ [msg]\<rparr>"

definition push_data :: "article \<Rightarrow> world \<Rightarrow> world" where
  "push_data data w = w\<lparr>dataset := dataset w @ [data]\<rparr>"

definition charge :: "string \<Rightarrow> world \<Rightarrow> world" where
  "charge event_name w = w\<lparr>charged := charged w @ [event_name]\<rparr>"

definition responses_create :: "llm \<Rightarrow> string \<Rightarrow> string \<Rightarrow> world \<Rightarrow> (error + response) \<times> world" where
  "responses_create client model input w =
     (client model input, w\<lparr>llm_calls := llm_calls w @ [(model, input)]\<rparr>)"

text \<open>
  \<^verbatim>\<open>context.enqueue_links(include=[...], label=...)\<close> belongs to the crawling library.
  It is taken by its contract: every link of the page that matches one of the patterns
  is appended to the queue under the label. How a pattern matches a URL is the
  library's business and is an argument of the model.
\<close>

type_synonym matcher = "string \<Rightarrow> string \<Rightarrow> bool"

definition enqueue_links :: "matcher \<Rightarrow> page \<Rightarrow> string list \<Rightarrow> string \<Rightarrow> world \<Rightarrow> world" where
  "enqueue_links glob_match p include label w =
     w\<lparr>queue := queue w @
          map (\<lambda>l. (l, Some label))
            (filter (\<lambda>l. list_ex (\<lambda>g. glob_match g l) include) (links p))\<rparr>"

subsection \<open>The default handler (listing pages), lines 60 to 70\<close>

text \<open>
  \<^verbatim>\<open>
  url = context.request.url
  Actor.log.info(f'Scraping {url}...')
  await context.enqueue_links(
      include=[Glob("https://www.wired.com/story/**"), ],
      label="ARTICLE",
      )
  \<close>
\<close>

definition request_handler :: "matcher \<Rightarrow> page \<Rightarrow> world \<Rightarrow> (error + unit) \<times> world" where
  "request_handler glob_match p w =
     (let url = request_url p;
          w1 = log_info (''Scraping '' @ url @ ''...'') w;
          w2 = enqueue_links glob_match p [''https://www.wired.com/story/**''] ''ARTICLE'' w1
      in (Inr (), w2))"

subsection \<open>The article handler, lines 72 to 109\<close>

text \<open>
  \<^verbatim>\<open>
  title = title_el.get_text(strip=True) if title_el else None
  content = content_el.get_text(strip=True) if content_el else None
  prompt = f"""
  Your task is to summarize the content of the article in 3 sentences.
  The original content of the article is:
  {content}

  Keep the answer simple and concise. Focus on the main points of the article, and avoid unnecessary details.
  """
  summary = (
      client.responses.create(model="gpt-4.1-mini", input=prompt)
      if content else None
  )
  data = {'title': title, 'content': content, 'url': context.request.url,
          'summary': summary.output_text if summary else None}
  await context.push_data(data)
  if content:
      await Actor.charge(event_name="article_summary")
  \<close>
  \<^verbatim>\<open>if content\<close> is Python's truthiness of an optional string: false for \<^verbatim>\<open>None\<close> and
  for the empty string. The f-string renders \<^verbatim>\<open>None\<close> as the text \<^verbatim>\<open>None\<close>. An
  exception of \<^verbatim>\<open>create\<close> is not caught: it leaves the handler at that line, with
  nothing pushed and nothing charged. The locals \<^verbatim>\<open>title\<close>, \<^verbatim>\<open>content\<close> and \<^verbatim>\<open>summary\<close> carry
  a prime here, the plain names being the fields of the record pushed.
\<close>

definition truthy :: "string option \<Rightarrow> bool" where
  "truthy c = (case c of None \<Rightarrow> False | Some s \<Rightarrow> s \<noteq> [])"

definition format_value :: "string option \<Rightarrow> string" where
  "format_value c = (case c of None \<Rightarrow> ''None'' | Some s \<Rightarrow> s)"

definition prompt :: "string option \<Rightarrow> string" where
  "prompt c =
     [CHR 0x0A]
     @ ''Your task is to summarize the content of the article in 3 sentences.'' @ [CHR 0x0A]
     @ ''The original content of the article is:'' @ [CHR 0x0A]
     @ format_value c @ [CHR 0x0A]
     @ [CHR 0x0A]
     @ ''Keep the answer simple and concise. Focus on the main points of the article, and avoid unnecessary details.''
     @ [CHR 0x0A]"

definition request_handler_ARTICLE :: "llm \<Rightarrow> page \<Rightarrow> world \<Rightarrow> (error + unit) \<times> world" where
  "request_handler_ARTICLE client p w =
     (let w1 = log_info (''Processing article '' @ request_url p @ '' ...'') w;
          title' = (case title_el p of Some el \<Rightarrow> Some (get_text el) | None \<Rightarrow> None);
          content' = (case content_el p of Some el \<Rightarrow> Some (get_text el) | None \<Rightarrow> None);
          (created, w2) =
            (if truthy content'
             then (case responses_create client ''gpt-4.1-mini'' (prompt content') w1 of
                     (Inl e, w') \<Rightarrow> (Inl e, w')
                   | (Inr r, w') \<Rightarrow> (Inr (Some r), w'))
             else (Inr None, w1))
      in case created of
           Inl e \<Rightarrow> (Inl e, w2)
         | Inr summary' \<Rightarrow>
             (let data = \<lparr>title = title',
                          content = content',
                          url = request_url p,
                          summary = (case summary' of Some r \<Rightarrow> Some (output_text r) | None \<Rightarrow> None)\<rparr>;
                  w3 = push_data data w2;
                  w4 = (if truthy content' then charge ''article_summary'' w3 else w3)
              in (Inr (), w4)))"

subsection \<open>The router and the run of the crawler\<close>





subsection \<open>Inputs used in the examples\<close>

definition no_world :: world where
  "no_world = \<lparr>logged = [], queue = [], llm_calls = [], dataset = [], charged = []\<rparr>"

definition failing_client :: llm where
  "failing_client model input = Inl (APIError ''rate limit'')"

definition fixed_client :: llm where
  "fixed_client model input = Inr \<lparr>output_text = ''Three sentences.''\<rparr>"

definition story_matcher :: matcher where
  "story_matcher g l = (take (length g - 2) g = take (length g - 2) l)"


definition story_page :: page where
  "story_page = \<lparr>request_url = ''https://www.wired.com/story/a'', links = [],
     title_el = Some (Element ''A''), content_el = Some (Element ''Body'')\<rparr>"

definition blank_page :: page where
  "blank_page = \<lparr>request_url = ''https://www.wired.com/story/b'', links = [],
     title_el = Some (Element ''B''), content_el = Some (Element '''')\<rparr>"

definition bare_page :: page where
  "bare_page = \<lparr>request_url = ''https://www.wired.com/story/c'', links = [],
     title_el = Some (Element ''C''), content_el = None\<rparr>"

definition listing_page :: page where
  "listing_page = \<lparr>request_url = ''https://www.wired.com/tag/programming'',
     links = [''https://www.wired.com/story/a'', ''https://www.wired.com/about''],
     title_el = None, content_el = None\<rparr>"

definition plain_page :: page where
  "plain_page = \<lparr>request_url = ''https://www.wired.com/tag/programming/?page=2'',
     links = [''https://www.wired.com/about''],
     title_el = None, content_el = None\<rparr>"

subsection \<open>The invariant of emitted records\<close>

text \<open>A record has a summary only if it has content, and content that is not empty.\<close>

definition summary_has_content :: "article \<Rightarrow> bool" where
  "summary_has_content r = (summary r \<noteq> None \<longrightarrow> content r \<noteq> None \<and> content r \<noteq> Some [])"

section \<open>Properties of the planning\<close>

subsection \<open>Decimal numerals are injective\<close>

lemma digit_val_char: "d < 10 \<Longrightarrow> digit_val (digit_char d) = d"
proof -
  assume "d < 10"
  then have "d \<in> {0, 1, 2, 3, 4, 5, 6, 7, 8, 9}" by auto
  then show ?thesis by (auto simp: digit_val_def digit_char_def)
qed

lemma nat_of_str_nat: "nat_of_str (str_nat n) = n"
proof (induction n rule: str_nat.induct)
  case (1 n)
  show ?case
  proof (cases "n < 10")
    case True
    then show ?thesis
      by (simp add: str_nat.simps [of n] nat_of_str_def digit_val_char)
  next
    case False
    with 1 have "nat_of_str (str_nat (n div 10)) = n div 10" by simp
    with False show ?thesis
      by (simp add: str_nat.simps [of n] nat_of_str_def digit_val_char)
  qed
qed

lemma str_nat_inj: "str_nat m = str_nat n \<Longrightarrow> m = n"
  by (metis nat_of_str_nat)

lemma str_int_inj_pos: "0 \<le> i \<Longrightarrow> 0 \<le> j \<Longrightarrow> str_int i = str_int j \<Longrightarrow> i = j"
  by (auto simp: str_int_def dest: str_nat_inj)

lemma seed_url_inj: "inj_on (seed_url b) {1..}"
proof (rule inj_onI)
  fix i j :: int
  assume i: "i \<in> {1..}" and j: "j \<in> {1..}" and eq: "seed_url b i = seed_url b j"
  show "i = j"
  proof (cases "i = 1"; cases "j = 1")
    assume "i \<noteq> 1" "j \<noteq> 1"
    with eq have "str_int i = str_int j" by (simp add: seed_url_def)
    with i j show ?thesis by (intro str_int_inj_pos) auto
  qed (use eq in \<open>auto simp: seed_url_def\<close>)
qed

subsection \<open>The double nearest to a quotient\<close>

lemma half_even_le: "x \<le> of_int k \<Longrightarrow> half_even x \<le> k"
  unfolding half_even_def Let_def by (auto split: if_splits) linarith+

lemma half_even_ge: "of_int k \<le> x \<Longrightarrow> k \<le> half_even x"
  unfolding half_even_def Let_def by (auto split: if_splits) linarith+

lemma half_even_gt: "of_int k + 1 / 2 < x \<Longrightarrow> k < half_even x"
  unfolding half_even_def Let_def by (auto split: if_splits) linarith+

lemma half_even_lt: "x < of_int k - 1 / 2 \<Longrightarrow> half_even x < k"
  unfolding half_even_def Let_def by (auto split: if_splits) linarith+

lemma half_even_nonneg: "0 \<le> x \<Longrightarrow> 0 \<le> half_even x"
  using half_even_ge [of 0 x] by simp

lemma powi_nat_quot: "(2::real) ^ nat d / 2 ^ nat (- d) = 2 powi d"
  by (cases "0 \<le> d") (simp_all add: power_int_def field_simps)

text \<open>\<open>exponent a b\<close> is the binary exponent of the quotient.\<close>

lemma exponent_bounds:
  assumes a: "0 < a" and b: "0 < b"
  shows "2 powi exponent a b \<le> real_of_int a / real_of_int b"
    and "real_of_int a / real_of_int b < 2 powi (exponent a b + 1)"
proof -
  define la where "la = bitlen a"
  define lb where "lb = bitlen b"
  define d where "d = la - lb"
  have la: "1 \<le> la" and lb: "1 \<le> lb"
    using a b bitlen_eq_zero_iff [of a] bitlen_eq_zero_iff [of b] bitlen_nonneg [of a] bitlen_nonneg [of b]
    by (auto simp: la_def lb_def)
  have ba: "(2::real) powi (la - 1) \<le> real_of_int a" "real_of_int a < 2 powi la"
  proof -
    from bitlen_bounds [OF a] have "2 ^ nat (la - 1) \<le> a" "a < 2 ^ nat la"
      by (simp_all add: la_def)
    then have "real_of_int (2 ^ nat (la - 1)) \<le> real_of_int a" "real_of_int a < real_of_int (2 ^ nat la)"
      by linarith+
    then show "(2::real) powi (la - 1) \<le> real_of_int a" "real_of_int a < 2 powi la"
      using la by (simp_all add: power_int_def)
  qed
  have bb: "(2::real) powi (lb - 1) \<le> real_of_int b" "real_of_int b < 2 powi lb"
  proof -
    from bitlen_bounds [OF b] have "2 ^ nat (lb - 1) \<le> b" "b < 2 ^ nat lb"
      by (simp_all add: lb_def)
    then have "real_of_int (2 ^ nat (lb - 1)) \<le> real_of_int b" "real_of_int b < real_of_int (2 ^ nat lb)"
      by linarith+
    then show "(2::real) powi (lb - 1) \<le> real_of_int b" "real_of_int b < 2 powi lb"
      using lb by (simp_all add: power_int_def)
  qed
  have rb: "0 < real_of_int b" using b by simp
  have lower: "(2::real) powi (d - 1) < real_of_int a / real_of_int b"
  proof -
    have "(2::real) powi (d - 1) * real_of_int b < 2 powi (d - 1) * 2 powi lb"
      using bb(2) by (intro mult_strict_left_mono) simp_all
    also have "\<dots> = 2 powi (la - 1)"
      by (simp add: d_def flip: power_int_add)
    also have "\<dots> \<le> real_of_int a" by (rule ba(1))
    finally show ?thesis using rb by (simp add: pos_less_divide_eq)
  qed
  have upper: "real_of_int a / real_of_int b < 2 powi (d + 1)"
  proof -
    have "real_of_int a < 2 powi la" by (rule ba(2))
    also have "\<dots> = 2 powi (d + 1) * 2 powi (lb - 1)"
      by (simp add: d_def flip: power_int_add)
    also have "\<dots> \<le> 2 powi (d + 1) * real_of_int b"
      using bb(1) by (intro mult_left_mono) simp_all
    finally show ?thesis using rb by (simp add: pos_divide_less_eq)
  qed
  have cond: "b * 2 ^ nat d \<le> a * 2 ^ nat (- d) \<longleftrightarrow> 2 powi d \<le> real_of_int a / real_of_int b"
  proof -
    have "b * 2 ^ nat d \<le> a * 2 ^ nat (- d)
        \<longleftrightarrow> real_of_int (b * 2 ^ nat d) \<le> real_of_int (a * 2 ^ nat (- d))"
      by linarith
    also have "\<dots> \<longleftrightarrow> real_of_int b * 2 ^ nat d \<le> real_of_int a * 2 ^ nat (- d)"
      by simp
    also have "\<dots> \<longleftrightarrow> 2 ^ nat d / 2 ^ nat (- d) \<le> real_of_int a / real_of_int b"
      using rb by (simp add: field_simps)
    finally show ?thesis by (simp add: powi_nat_quot)
  qed
  have e: "exponent a b = (if 2 powi d \<le> real_of_int a / real_of_int b then d else d - 1)"
    unfolding exponent_def Let_def la_def [symmetric] lb_def [symmetric] d_def [symmetric] cond ..
  show "2 powi exponent a b \<le> real_of_int a / real_of_int b"
    using lower by (simp add: e)
  show "real_of_int a / real_of_int b < 2 powi (exponent a b + 1)"
    using upper by (simp add: e)
qed

text \<open>
  Rounding \<open>a / b\<close> to a multiple of \<open>1 / s\<close> moves it across no integer, provided the
  step \<open>1 / s\<close> is less than twice the least distance \<open>1 / b\<close> of a fraction with
  denominator \<open>b\<close> from an integer it does not equal.
\<close>

lemma scaled_half_even:
  fixes a b s :: int
  assumes b: "0 < b" and s: "0 < s" and bs: "b < 2 * s"
  defines "x \<equiv> real_of_int a / real_of_int b"
  defines "m \<equiv> half_even (x * real_of_int s)"
  shows "\<lceil>real_of_int m / real_of_int s\<rceil> = \<lceil>x\<rceil>"
    and "\<lfloor>real_of_int m / real_of_int s\<rfloor> = \<lfloor>x\<rfloor>"
proof -
  have rb: "0 < real_of_int b" and rs: "0 < real_of_int s" using b s by simp_all
  have half: "1 / 2 < real_of_int s / real_of_int b"
  proof -
    have "real_of_int b < 2 * real_of_int s" using bs by linarith
    then show ?thesis using rb by (simp add: field_simps)
  qed
  have gap: "real_of_int s / real_of_int b \<le> (y - x) * real_of_int s"
    if "x < real_of_int j" "y = real_of_int j" for j y
  proof -
    have "real_of_int a < real_of_int j * real_of_int b"
      using that(1) rb by (simp add: x_def pos_divide_less_eq)
    then have "real_of_int a < real_of_int (j * b)" by simp
    then have "a < j * b" by linarith
    then have "a + 1 \<le> j * b" by simp
    then have "real_of_int (a + 1) \<le> real_of_int (j * b)" by linarith
    then have "1 \<le> real_of_int j * real_of_int b - real_of_int a" by simp
    then have "1 / real_of_int b \<le> real_of_int j - x"
      using rb by (simp add: x_def field_simps)
    then have "1 / real_of_int b * real_of_int s \<le> (real_of_int j - x) * real_of_int s"
      using rs by (intro mult_right_mono) simp_all
    then show ?thesis using that(2) by simp
  qed
  have gap': "real_of_int s / real_of_int b \<le> (x - y) * real_of_int s"
    if "real_of_int j < x" "y = real_of_int j" for j y
  proof -
    have "real_of_int j * real_of_int b < real_of_int a"
      using that(1) rb by (simp add: x_def pos_less_divide_eq)
    then have "real_of_int (j * b) < real_of_int a" by simp
    then have "j * b < a" by linarith
    then have "j * b + 1 \<le> a" by simp
    then have "real_of_int (j * b + 1) \<le> real_of_int a" by linarith
    then have "1 \<le> real_of_int a - real_of_int j * real_of_int b" by simp
    then have "1 / real_of_int b \<le> x - real_of_int j"
      using rb by (simp add: x_def field_simps)
    then have "1 / real_of_int b * real_of_int s \<le> (x - real_of_int j) * real_of_int s"
      using rs by (intro mult_right_mono) simp_all
    then show ?thesis using that(2) by simp
  qed
  show "\<lceil>real_of_int m / real_of_int s\<rceil> = \<lceil>x\<rceil>"
  proof (rule ceiling_unique)
    define k where "k = \<lceil>x\<rceil>"
    have up: "x \<le> real_of_int k" and lo: "real_of_int (k - 1) < x"
      unfolding k_def by linarith+
    have "x * real_of_int s \<le> real_of_int (k * s)"
      using up rs by simp
    then have "m \<le> k * s" unfolding m_def by (rule half_even_le)
    then have "real_of_int m \<le> real_of_int (k * s)" by linarith
    then show "real_of_int m / real_of_int s \<le> real_of_int \<lceil>x\<rceil>"
      using rs by (simp add: k_def pos_divide_le_eq)
    have "real_of_int s / real_of_int b \<le> (x - real_of_int (k - 1)) * real_of_int s"
      using lo by (rule gap') simp
    with half have "1 / 2 < (x - real_of_int (k - 1)) * real_of_int s" by linarith
    then have "real_of_int ((k - 1) * s) + 1 / 2 < x * real_of_int s"
      by (simp add: algebra_simps)
    then have "(k - 1) * s < m" unfolding m_def by (rule half_even_gt)
    then have "real_of_int ((k - 1) * s) < real_of_int m" by linarith
    then show "real_of_int \<lceil>x\<rceil> - 1 < real_of_int m / real_of_int s"
      using rs by (simp add: k_def pos_less_divide_eq)
  qed
  show "\<lfloor>real_of_int m / real_of_int s\<rfloor> = \<lfloor>x\<rfloor>"
  proof (rule floor_unique)
    define j where "j = \<lfloor>x\<rfloor>"
    have lo: "real_of_int j \<le> x" and up: "x < real_of_int (j + 1)"
      unfolding j_def by linarith+
    have "real_of_int (j * s) \<le> x * real_of_int s"
      using lo rs by simp
    then have "j * s \<le> m" unfolding m_def by (rule half_even_ge)
    then have "real_of_int (j * s) \<le> real_of_int m" by linarith
    then show "real_of_int \<lfloor>x\<rfloor> \<le> real_of_int m / real_of_int s"
      using rs by (simp add: j_def pos_le_divide_eq)
    have "real_of_int s / real_of_int b \<le> (real_of_int (j + 1) - x) * real_of_int s"
      using up by (rule gap) simp
    with half have "1 / 2 < (real_of_int (j + 1) - x) * real_of_int s" by linarith
    then have "x * real_of_int s < real_of_int ((j + 1) * s) - 1 / 2"
      by (simp add: algebra_simps)
    then have "m < (j + 1) * s" unfolding m_def by (rule half_even_lt)
    then have "real_of_int m < real_of_int ((j + 1) * s)" by linarith
    then show "real_of_int m / real_of_int s < real_of_int \<lfloor>x\<rfloor> + 1"
      using rs by (simp add: j_def pos_divide_less_eq)
  qed
qed

lemma round_double_nonneg:
  assumes "0 < a" and "0 < b"
  shows "0 \<le> round_double a b"
proof -
  have "0 \<le> real_of_int a / real_of_int b / 2 powi p" for p
    using assms by simp
  then show ?thesis
    unfolding round_double_def Let_def
    by (intro mult_nonneg_nonneg) (simp_all add: half_even_nonneg)
qed

text \<open>Below \<open>2 ^ 53\<close> the double quotient has the floor and the ceiling of the exact one.\<close>

lemma round_double_small:
  assumes a: "0 < a" "a < 2 ^ 53" and b: "0 < b" "b < 2 ^ 53"
  shows "\<lceil>round_double a b\<rceil> = \<lceil>real_of_int a / real_of_int b\<rceil>"
    and "\<lfloor>round_double a b\<rfloor> = \<lfloor>real_of_int a / real_of_int b\<rfloor>"
proof -
  define x where "x = real_of_int a / real_of_int b"
  define e where "e = exponent a b"
  have rb: "0 < real_of_int b" using b(1) by simp
  have ra: "1 \<le> real_of_int a" "real_of_int a < 2 ^ 53"
  proof -
    show "1 \<le> real_of_int a" using a(1) by linarith
    have "real_of_int a < real_of_int (2 ^ 53)" using a(2) by (simp only: of_int_less_iff)
    then show "real_of_int a < 2 ^ 53" by simp
  qed
  have rb2: "real_of_int b < 2 ^ 53"
  proof -
    have "real_of_int b < real_of_int (2 ^ 53)" using b(2) by (simp only: of_int_less_iff)
    then show ?thesis by simp
  qed
  have lo: "2 powi e \<le> x" and hi: "x < 2 powi (e + 1)"
    using exponent_bounds [OF a(1) b(1)] by (simp_all add: x_def e_def)
  have x_lo: "2 powi (- 53) < x"
  proof -
    have "(2::real) powi (- 53) * real_of_int b < 2 powi (- 53) * 2 ^ 53"
      using rb2 by (intro mult_strict_left_mono) simp_all
    also have "\<dots> = 1" by (simp add: power_int_minus)
    also have "\<dots> \<le> real_of_int a" by (rule ra(1))
    finally show ?thesis using rb by (simp add: x_def pos_less_divide_eq)
  qed
  have x_hi: "x < 2 powi 53"
  proof -
    have "real_of_int a \<le> real_of_int a * real_of_int b"
      using ra(1) b(1) by (simp add: mult_le_cancel_left1) 
    then have "x \<le> real_of_int a" using rb by (simp add: x_def pos_divide_le_eq)
    with ra(2) show ?thesis by simp
  qed
  have e_lo: "- 53 \<le> e"
  proof (rule ccontr)
    assume "\<not> - 53 \<le> e"
    then have "e + 1 \<le> - 53" by simp
    then have "(2::real) powi (e + 1) \<le> 2 powi (- 53)"
      by (intro power_int_increasing) simp_all
    with hi x_lo show False by simp
  qed
  have e_hi: "e \<le> 52"
  proof (rule ccontr)
    assume "\<not> e \<le> 52"
    then have "53 \<le> e" by simp
    then have "(2::real) powi 53 \<le> 2 powi e"
      by (intro power_int_increasing) simp_all
    with lo x_hi show False by simp
  qed
  define s :: int where "s = 2 ^ nat (52 - e)"
  have s: "0 < s" by (simp add: s_def)
  have rs: "real_of_int s = 2 powi (52 - e)"
    using e_hi by (simp add: s_def power_int_def)
  have p: "max (e - 52) (- 1074) = e - 52" using e_lo by simp
  have inv: "(2::real) powi (e - 52) = 1 / real_of_int s"
    unfolding rs using power_int_minus [of "2::real" "52 - e"] by (simp add: field_simps)
  have bs: "b < 2 * s"
  proof -
    have "real_of_int b * 2 powi e \<le> real_of_int a"
      using lo rb by (simp add: x_def pos_le_divide_eq mult.commute)
    also have "\<dots> < 2 powi 53" using ra(2) by simp
    also have "\<dots> = (2 * real_of_int s) * 2 powi e"
      unfolding rs using power_int_add [of "2::real" "53 - e" e] power_int_add [of "2::real" 1 "52 - e"]
      by simp
    finally have "real_of_int b < 2 * real_of_int s" by simp
    then show ?thesis by linarith
  qed
  have r: "round_double a b = real_of_int (half_even (x * real_of_int s)) / real_of_int s"
    unfolding round_double_def Let_def e_def [symmetric] p inv x_def [symmetric] by simp
  show "\<lceil>round_double a b\<rceil> = \<lceil>real_of_int a / real_of_int b\<rceil>"
    unfolding r x_def by (rule scaled_half_even(1) [OF b(1) s bs])
  show "\<lfloor>round_double a b\<rfloor> = \<lfloor>real_of_int a / real_of_int b\<rfloor>"
    unfolding r x_def by (rule scaled_half_even(2) [OF b(1) s bs])
qed

subsection \<open>The page count\<close>

lemma quotient_le:
  fixes a b :: int
  assumes "0 \<le> a" and "0 < b"
  shows "real_of_int a / real_of_int b \<le> real_of_int a"
proof -
  have "1 \<le> real_of_int b" using assms(2) by linarith
  then have "real_of_int a * 1 \<le> real_of_int a * real_of_int b"
    using assms(1) by (intro mult_left_mono) simp_all
  then show ?thesis using assms(2) by (simp add: pos_divide_le_eq)
qed

lemma total_pages_of_exact:
  assumes n: "\<bar>n\<bar> < 2 ^ 53" and ps: "0 < ps" "ps < 2 ^ 53"
  shows "total_pages_of n ps = Inr (- (- n div ps))"
proof -
  consider "n = 0" | "0 < n" | "n < 0" by linarith
  then show ?thesis
  proof cases
    case 1
    then show ?thesis using ps(1) by (simp add: total_pages_of_def truediv_def ceil_def)
  next
    case 2
    then have a: "0 < n" "n < 2 ^ 53" using n by simp_all
    let ?r = "round_double n ps"
    have c: "\<lceil>?r\<rceil> = \<lceil>real_of_int n / real_of_int ps\<rceil>"
      by (rule round_double_small(1) [OF a ps])
    have "real_of_int n / real_of_int ps \<le> real_of_int n"
      using a(1) ps(1) by (intro quotient_le) simp_all
    then have "\<lceil>real_of_int n / real_of_int ps\<rceil> \<le> n" by (simp add: ceiling_le_iff)
    with c a(2) have "\<lceil>?r\<rceil> < 2 ^ 53" by linarith
    then have "real_of_int \<lceil>?r\<rceil> < real_of_int (2 ^ 53)" by (simp only: of_int_less_iff)
    moreover have "?r \<le> real_of_int \<lceil>?r\<rceil>" by simp
    ultimately have "?r < 2 ^ 53" by simp
    moreover have "(2::real) ^ 53 \<le> 2 ^ 1024" by (intro power_increasing) simp_all
    ultimately have no: "\<not> 2 ^ 1024 \<le> ?r" by linarith
    show ?thesis
      using a(1) ps(1) no c
      by (simp add: total_pages_of_def truediv_def ceil_def Let_def ceiling_divide_eq_div)
  next
    case 3
    then have a: "0 < - n" "- n < 2 ^ 53" using n by simp_all
    let ?r = "round_double (- n) ps"
    have f: "\<lfloor>?r\<rfloor> = \<lfloor>real_of_int (- n) / real_of_int ps\<rfloor>"
      by (rule round_double_small(2) [OF a ps])
    have "real_of_int (- n) / real_of_int ps \<le> real_of_int (- n)"
      using a(1) ps(1) by (intro quotient_le) simp_all
    then have "\<lfloor>real_of_int (- n) / real_of_int ps\<rfloor> \<le> - n" by (simp add: floor_le_iff)
    with f a(2) have "\<lfloor>?r\<rfloor> + 1 \<le> 2 ^ 53" by linarith
    then have "real_of_int (\<lfloor>?r\<rfloor> + 1) \<le> real_of_int (2 ^ 53)" by (simp only: of_int_le_iff)
    moreover have "?r < real_of_int (\<lfloor>?r\<rfloor> + 1)" by simp
    ultimately have "?r < 2 ^ 53" by simp
    moreover have "(2::real) ^ 53 \<le> 2 ^ 1024" by (intro power_increasing) simp_all
    ultimately have no: "\<not> 2 ^ 1024 \<le> ?r" by linarith
    have "\<lceil>- ?r\<rceil> = - \<lfloor>?r\<rfloor>" by (simp add: ceiling_minus)
    also have "\<dots> = - (- n div ps)"
      unfolding f by (simp only: floor_divide_of_int_eq)
    finally have c: "\<lceil>- ?r\<rceil> = - (- n div ps)" .
    show ?thesis
      using 3 ps(1) no c
      by (simp add: total_pages_of_def truediv_def ceil_def Let_def)
  qed
qed

lemma total_pages_of_nonpositive:
  assumes "n \<le> 0" and "0 < ps"
  shows "total_pages_of n ps = Inl OverflowError
     \<or> (\<exists>k. total_pages_of n ps = Inr k \<and> k \<le> 0)"
proof (cases "n = 0")
  case True
  then show ?thesis using assms(2) by (simp add: total_pages_of_def truediv_def ceil_def)
next
  case False
  with assms(1) have neg: "n < 0" by simp
  let ?r = "round_double (- n) ps"
  have "0 \<le> ?r" using neg assms(2) by (intro round_double_nonneg) simp_all
  then have "\<lceil>- ?r\<rceil> \<le> 0" by (simp add: ceiling_le_iff)
  then show ?thesis
    using neg assms(2)
    by (simp add: total_pages_of_def truediv_def ceil_def Let_def)
qed

lemma plan_pages_eq:
  "\<bar>n\<bar> < 2 ^ 53 \<Longrightarrow> 0 < per_page \<Longrightarrow> per_page < 2 ^ 53 \<Longrightarrow>
   plan_pages base n per_page =
     Inr \<lparr>max_articles = n,
          total_pages = - (- n div per_page),
          start_urls = map (seed_url base) [1..- (- n div per_page)],
          max_requests_per_crawl = n + - (- n div per_page)\<rparr>"
  by (simp add: plan_pages_def total_pages_of_exact)

lemma ceil_div_bounds:
  fixes n ps :: int
  assumes "0 < ps"
  shows "n \<le> - (- n div ps) * ps" and "(- (- n div ps) - 1) * ps < n"
proof -
  have m: "- n = (- n div ps) * ps + (- n) mod ps" by simp
  have r: "0 \<le> (- n) mod ps" "(- n) mod ps < ps" using assms by simp_all
  show "n \<le> - (- n div ps) * ps" using m r by linarith
  have "(- (- n div ps) - 1) * ps = - ((- n div ps) * ps) - ps" by (simp add: algebra_simps)
  then show "(- (- n div ps) - 1) * ps < n" using m r by linarith
qed

lemma str_int_2: "str_int 2 = ''2''" by (simp add: str_int_def str_nat.simps digit_char_def)

subsection \<open>Overflow of the quotient\<close>

text \<open>
  A quotient of at least \<open>2 ^ e\<close>, with \<open>e\<close> in the normal range, rounds to a double of
  at least \<open>2 ^ e\<close>; so a quotient of \<open>2 ^ 1024\<close> or more raises \<^verbatim>\<open>OverflowError\<close>.
\<close>

lemma round_double_lower:
  assumes a: "0 < a" and b: "0 < b"
    and lo: "2 powi e' \<le> real_of_int a / real_of_int b" and e': "- 1022 \<le> e'"
  shows "2 powi e' \<le> round_double a b"
proof -
  define x where "x = real_of_int a / real_of_int b"
  define e where "e = exponent a b"
  have xlo: "2 powi e \<le> x" and xhi: "x < 2 powi (e + 1)"
    using exponent_bounds [OF a b] by (simp_all add: x_def e_def)
  have le: "e' \<le> e"
  proof (rule ccontr)
    assume "\<not> e' \<le> e"
    then have "e + 1 \<le> e'" by simp
    then have "(2::real) powi (e + 1) \<le> 2 powi e'"
      by (intro power_int_increasing) simp_all
    with lo xhi show False by (simp add: x_def)
  qed
  have p: "max (e - 52) (- 1074) = e - 52" using le e' by simp
  have "(2::real) powi 52 * 2 powi (e - 52) = 2 powi e"
    using power_int_add [of "2::real" 52 "e - 52"] by simp
  with xlo have "2 powi 52 \<le> x / 2 powi (e - 52)"
    by (simp add: pos_le_divide_eq)
  then have "real_of_int (2 ^ 52) \<le> x / 2 powi (e - 52)" by simp
  then have "2 ^ 52 \<le> half_even (x / 2 powi (e - 52))" by (rule half_even_ge)
  then have "real_of_int (2 ^ 52) \<le> real_of_int (half_even (x / 2 powi (e - 52)))"
    by (simp only: of_int_le_iff)
  then have "real_of_int (2 ^ 52) * 2 powi (e - 52)
      \<le> real_of_int (half_even (x / 2 powi (e - 52))) * 2 powi (e - 52)"
    by (intro mult_right_mono) simp_all
  moreover have "real_of_int (2 ^ 52) * 2 powi (e - 52) = 2 powi e"
    using power_int_add [of "2::real" 52 "e - 52"] by simp
  moreover have "(2::real) powi e' \<le> 2 powi e"
    using le by (intro power_int_increasing) simp_all
  ultimately show ?thesis
    unfolding round_double_def Let_def e_def [symmetric] p x_def [symmetric] by linarith
qed

lemma truediv_overflow:
  assumes "0 < b" and "2 ^ 1024 * b \<le> \<bar>a\<bar>"
  shows "truediv a b = Inl OverflowError"
proof -
  have pos: "0 < \<bar>a\<bar>"
  proof -
    have "(0::int) < 2 ^ 1024 * b" using assms(1) by simp
    with assms(2) show ?thesis by linarith
  qed
  have "real_of_int (2 ^ 1024 * b) \<le> real_of_int \<bar>a\<bar>"
    using assms(2) by (simp only: of_int_le_iff)
  then have "2 ^ 1024 * real_of_int b \<le> real_of_int \<bar>a\<bar>" by simp
  then have "(2::real) powi 1024 \<le> real_of_int \<bar>a\<bar> / real_of_int b"
    using assms(1) by (simp add: pos_le_divide_eq)
  then have "(2::real) powi 1024 \<le> round_double \<bar>a\<bar> b"
    using pos assms(1) by (intro round_double_lower) simp_all
  then have "(2::real) ^ 1024 \<le> round_double \<bar>a\<bar> \<bar>b\<bar>"
    using assms(1) by simp
  then show ?thesis
    using pos assms(1) by (simp add: truediv_def)
qed

subsection \<open>Seed URLs for a positive target\<close>

text \<open>
  Claim C3 as the spec states it: for every target \<open>n > 0\<close> the page count is the ceiling
  of \<open>n / per_page\<close>. The code takes the ceiling of the double nearest to the quotient.
  For \<open>n = 24 * 2 ^ 49 + 1\<close> and pages of 24 the quotient \<open>2 ^ 49 + 1 / 24\<close> lies between
  two doubles that are \<open>1 / 8\<close> apart and rounds down to \<open>2 ^ 49\<close>: the page count is
  \<open>2 ^ 49\<close>, one less than the ceiling, and that many pages hold fewer than \<open>n\<close> items.
\<close>

theorem plan_pages_positive_counterexample:
  "total_pages_of 13510798882111489 24 = Inr 562949953421312
   \<and> 562949953421312 * 24 < (13510798882111489::int)
   \<and> \<lceil>real_of_int 13510798882111489 / real_of_int 24\<rceil> = 562949953421313"
proof -
  have e: "exponent 13510798882111489 24 = 49" by code_simp
  have h: "half_even (13510798882111489 / 3) = 4503599627370496"
    by (simp add: half_even_def Let_def)
  have r: "round_double 13510798882111489 24 = 562949953421312"
    by (simp add: round_double_def e power_int_minus h)
  show ?thesis
    by (simp add: total_pages_of_def truediv_def r ceil_def)
qed

text \<open>
  Claim C3, amended. For every target item count \<open>n\<close> with \<open>0 < n < 2 ^ 53\<close> and page
  size \<open>per_page\<close> with \<open>0 < per_page < 2 ^ 53\<close> the planning succeeds; the page count is
  the ceiling of \<open>n / per_page\<close>, that is the least \<open>k\<close> with \<open>n \<le> k * per_page\<close>; the seed
  list has exactly that many URLs; its first element is the bare base URL; the element
  at the 1-based position \<open>i > 1\<close> is the base URL followed by \<^verbatim>\<open>/?page=\<close> and the decimal
  numeral of \<open>i\<close>; and the URLs are pairwise distinct.
\<close>

theorem plan_pages_positive:
  assumes "0 < n" and "n < 2 ^ 53" and "0 < per_page" and "per_page < 2 ^ 53"
  shows "\<exists>p. plan_pages base n per_page = Inr p
           \<and> total_pages p = \<lceil>real_of_int n / real_of_int per_page\<rceil>
           \<and> n \<le> total_pages p * per_page \<and> (total_pages p - 1) * per_page < n
           \<and> int (length (start_urls p)) = total_pages p
           \<and> start_urls p ! 0 = base
           \<and> (\<forall>i. 1 < i \<and> i \<le> total_pages p \<longrightarrow>
                  start_urls p ! nat (i - 1) = base @ ''/?page='' @ str_int i)
           \<and> distinct (start_urls p)"
proof -
  define k where "k = - (- n div per_page)"
  define p where "p = \<lparr>max_articles = n, total_pages = k,
    start_urls = map (seed_url base) [1..k], max_requests_per_crawl = n + k\<rparr>"
  have run: "plan_pages base n per_page = Inr p"
    using assms by (simp add: plan_pages_eq p_def k_def)
  have ceil_eq: "total_pages p = \<lceil>real_of_int n / real_of_int per_page\<rceil>"
    by (simp add: p_def k_def ceiling_divide_eq_div)
  have lo: "n \<le> k * per_page" and hi: "(k - 1) * per_page < n"
    using ceil_div_bounds [OF assms(3), of n] by (simp_all add: k_def)
  have k1: "1 \<le> k"
  proof (rule ccontr)
    assume "\<not> 1 \<le> k"
    then have "k \<le> 0" by simp
    then have "k * per_page \<le> 0" using assms(3) by (simp add: mult_le_0_iff)
    with lo assms(1) show False by simp
  qed
  have len: "int (length (start_urls p)) = total_pages p"
    using k1 by (simp add: p_def)
  have first: "start_urls p ! 0 = base"
    using k1 by (simp add: p_def seed_url_def)
  have rest: "\<forall>i. 1 < i \<and> i \<le> total_pages p \<longrightarrow>
      start_urls p ! nat (i - 1) = base @ ''/?page='' @ str_int i"
  proof (intro allI impI)
    fix i assume i: "1 < i \<and> i \<le> total_pages p"
    then have "nat (i - 1) < length [1..k]" by (simp add: p_def)
    moreover have "[1..k] ! nat (i - 1) = i"
      using i by (simp add: p_def)
    ultimately show "start_urls p ! nat (i - 1) = base @ ''/?page='' @ str_int i"
      using i by (simp add: p_def seed_url_def)
  qed
  have dist: "distinct (start_urls p)"
  proof -
    have "inj_on (seed_url base) (set [1..k])"
      by (rule inj_on_subset [OF seed_url_inj]) auto
    then show ?thesis by (simp add: p_def distinct_map)
  qed
  from run ceil_eq lo hi len first rest dist show ?thesis
    by (intro exI [of _ p]) (simp add: p_def)
qed

text \<open>The instance of \<^verbatim>\<open>main\<close> for 25 articles: two pages.\<close>

theorem plan_pages_positive_witness:
  "(0::int) < 25 \<and> (25::int) < 2 ^ 53 \<and> (0::int) < 24 \<and> (24::int) < 2 ^ 53
   \<and> plan_pages base_url 25 24 =
       Inr \<lparr>max_articles = 25, total_pages = 2,
            start_urls = [''https://www.wired.com/tag/programming'',
                          ''https://www.wired.com/tag/programming/?page=2''],
            max_requests_per_crawl = 27\<rparr>
   \<and> distinct [''https://www.wired.com/tag/programming'',
                ''https://www.wired.com/tag/programming/?page=2'']"
proof -
  have ev: "plan_pages base_url 25 24 =
       Inr \<lparr>max_articles = 25, total_pages = 2,
            start_urls = [''https://www.wired.com/tag/programming'',
                          ''https://www.wired.com/tag/programming/?page=2''],
            max_requests_per_crawl = 27\<rparr>"
    by (simp add: plan_pages_eq base_url_def upto.simps seed_url_def str_int_2)
  from plan_pages_positive [of 25 24 base_url]
  obtain p where "plan_pages base_url 25 24 = Inr p" and "distinct (start_urls p)"
    by auto
  with ev show ?thesis by auto
qed

subsection \<open>A target of zero or less\<close>

text \<open>
  Claim C6 as the spec states it: for a target \<open>n \<le> 0\<close> the page count is 0 and nothing
  is raised. The code takes the ceiling of a negative quotient, which is negative from
  \<open>n = - per_page\<close> downwards: for \<open>n = - 24\<close> and pages of 24 the page count is \<open>- 1\<close>.
  And for \<open>n = - (2 ^ 1030)\<close> the division raises \<^verbatim>\<open>OverflowError\<close>.
\<close>

theorem plan_pages_nonpositive_counterexample:
  "plan_pages base_url (- 24) 24 =
     Inr \<lparr>max_articles = - 24, total_pages = - 1, start_urls = [],
          max_requests_per_crawl = - 25\<rparr>
   \<and> total_pages \<lparr>max_articles = - 24, total_pages = - 1, start_urls = [],
          max_requests_per_crawl = - 25\<rparr> \<noteq> 0
   \<and> plan_pages base_url (- (2 ^ 1030)) 24 = Inl OverflowError"
proof -
  have "truediv (- (2 ^ 1030)) 24 = Inl OverflowError"
    by (rule truediv_overflow) simp_all
  then have "plan_pages base_url (- (2 ^ 1030)) 24 = Inl OverflowError"
    by (simp only: plan_pages_def total_pages_of_def sum.case)
  then show ?thesis by (simp add: plan_pages_eq)
qed

text \<open>
  Claim C6, amended. For every target \<open>n\<close> with \<open>- (2 ^ 53) < n \<le> 0\<close> and page size
  \<open>per_page\<close> with \<open>0 < per_page < 2 ^ 53\<close> the planning raises nothing (no division by
  zero), the page count is the ceiling of \<open>n / per_page\<close>, which is at most 0, and is 0
  exactly when \<open>- per_page < n\<close>; the seed list is empty.
\<close>

theorem plan_pages_nonpositive:
  assumes "n \<le> 0" and "- (2 ^ 53) < n" and "0 < per_page" and "per_page < 2 ^ 53"
  shows "\<exists>p. plan_pages base n per_page = Inr p
           \<and> total_pages p = \<lceil>real_of_int n / real_of_int per_page\<rceil>
           \<and> total_pages p \<le> 0
           \<and> (total_pages p = 0 \<longleftrightarrow> - per_page < n)
           \<and> start_urls p = []"
proof -
  define k where "k = - (- n div per_page)"
  have lo: "n \<le> k * per_page" and hi: "(k - 1) * per_page < n"
    using ceil_div_bounds [OF assms(3), of n] by (simp_all add: k_def)
  have k0: "k \<le> 0"
  proof (rule ccontr)
    assume "\<not> k \<le> 0"
    then have "0 \<le> k - 1" by simp
    then have "0 \<le> (k - 1) * per_page" using assms(3) by simp
    with hi assms(1) show False by simp
  qed
  have zero: "k = 0 \<longleftrightarrow> - per_page < n"
  proof
    assume "k = 0"
    with hi show "- per_page < n" by simp
  next
    assume a: "- per_page < n"
    show "k = 0"
    proof (rule ccontr)
      assume "k \<noteq> 0"
      with k0 have "k \<le> - 1" by simp
      then have "k * per_page \<le> - 1 * per_page"
        using assms(3) by (intro mult_right_mono) simp_all
      with lo a show False by simp
    qed
  qed
  have "[1..k] = []" using k0 by simp
  moreover have "\<bar>n\<bar> < 2 ^ 53" using assms(1,2) by simp
  ultimately show ?thesis
    using k0 zero assms(3,4)
    by (simp add: plan_pages_eq k_def ceiling_divide_eq_div)
qed

theorem plan_pages_nonpositive_witness:
  "(- 5::int) \<le> 0 \<and> - (2 ^ 53) < (- 5::int) \<and> (0::int) < 24 \<and> (24::int) < 2 ^ 53
   \<and> plan_pages base_url (- 5) 24 =
       Inr \<lparr>max_articles = - 5, total_pages = 0, start_urls = [],
            max_requests_per_crawl = - 5\<rparr>"
proof -
  from plan_pages_nonpositive [of "- 5" 24 base_url]
  obtain p where p: "plan_pages base_url (- 5) 24 = Inr p" "start_urls p = []"
    "total_pages p = 0 \<longleftrightarrow> - 24 < (- 5::int)"
    by auto
  then have "total_pages p = 0" by simp
  moreover have "max_articles p = - 5" "max_requests_per_crawl p = - 5 + total_pages p"
    using p(1) by (auto simp: plan_pages_def split: sum.splits)
  ultimately have "p = \<lparr>max_articles = - 5, total_pages = 0, start_urls = [],
            max_requests_per_crawl = - 5\<rparr>"
    using p(2) by simp
  with p(1) show ?thesis by simp
qed

subsection \<open>No validation of the configured \<^verbatim>\<open>maxArticles\<close>\<close>

text \<open>
  Claim C7 as the spec states it: a configured \<^verbatim>\<open>maxArticles\<close> of zero or less is
  rejected with a validation error. The code has no validation: with \<^verbatim>\<open>maxArticles\<close>
  set to 0 the planning returns normally, with no page to visit and a budget of 0.
\<close>

theorem main_plan_zero_counterexample:
  "main_plan (Some (map_of [(''maxArticles'', 0)])) =
     Inr \<lparr>max_articles = 0, total_pages = 0, start_urls = [],
          max_requests_per_crawl = 0\<rparr>"
  by (simp add: main_plan_def get_max_articles_def ARTICLES_PER_PAGE_def plan_pages_eq)

text \<open>
  Claim C7, amended. For every configured \<^verbatim>\<open>maxArticles\<close> \<open>n \<le> 0\<close> the planning of
  \<^verbatim>\<open>main\<close> validates nothing: it yields a plan for \<open>n\<close> with a page count of at most 0
  and an empty seed list, a crawl of zero pages, unless the division of line 47
  overflows the doubles and raises \<^verbatim>\<open>OverflowError\<close>; for \<open>n > - (2 ^ 53)\<close> it does not
  overflow, and the plan is returned.
\<close>

theorem main_plan_nonpositive:
  assumes "actor_input = Some d" and "d ''maxArticles'' = Some n" and "n \<le> 0"
  shows "(main_plan actor_input = Inl OverflowError
          \<or> (\<exists>p. main_plan actor_input = Inr p
                \<and> max_articles p = n \<and> total_pages p \<le> 0 \<and> start_urls p = []))
     \<and> (- (2 ^ 53) < n \<longrightarrow>
          (\<exists>p. main_plan actor_input = Inr p
                \<and> max_articles p = n \<and> total_pages p \<le> 0 \<and> start_urls p = []))"
proof -
  have n: "get_max_articles actor_input = n"
    using assms(1,2) by (simp add: get_max_articles_def)
  have any: "main_plan actor_input = Inl OverflowError
          \<or> (\<exists>p. main_plan actor_input = Inr p
                \<and> max_articles p = n \<and> total_pages p \<le> 0 \<and> start_urls p = [])"
    using total_pages_of_nonpositive [OF assms(3), of 24]
    by (auto simp: main_plan_def n ARTICLES_PER_PAGE_def plan_pages_def)
  have small: "- (2 ^ 53) < n \<longrightarrow>
          (\<exists>p. main_plan actor_input = Inr p
                \<and> max_articles p = n \<and> total_pages p \<le> 0 \<and> start_urls p = [])"
  proof
    assume "- (2 ^ 53) < n"
    with assms(3) have "\<bar>n\<bar> < 2 ^ 53" by simp
    then have "\<exists>k. total_pages_of n 24 = Inr k" by (simp add: total_pages_of_exact)
    with any show "\<exists>p. main_plan actor_input = Inr p
                \<and> max_articles p = n \<and> total_pages p \<le> 0 \<and> start_urls p = []"
      by (auto simp: main_plan_def n ARTICLES_PER_PAGE_def plan_pages_def)
  qed
  from any small show ?thesis by simp
qed

theorem main_plan_nonpositive_witness:
  "map_of [(''maxArticles'', - 30::int)] ''maxArticles'' = Some (- 30) \<and> (- 30::int) \<le> 0
   \<and> - (2 ^ 53) < (- 30::int)
   \<and> main_plan (Some (map_of [(''maxArticles'', - 30)])) =
        Inr \<lparr>max_articles = - 30, total_pages = - 1, start_urls = [],
             max_requests_per_crawl = - 31\<rparr>"
proof -
  have ev: "main_plan (Some (map_of [(''maxArticles'', - 30)])) =
        Inr \<lparr>max_articles = - 30, total_pages = - 1, start_urls = [],
             max_requests_per_crawl = - 31\<rparr>"
    by (simp add: main_plan_def get_max_articles_def ARTICLES_PER_PAGE_def plan_pages_eq)
  from main_plan_nonpositive
    [of "Some (map_of [(''maxArticles'', - 30)])" "map_of [(''maxArticles'', - 30)]" "- 30"]
  obtain p where "main_plan (Some (map_of [(''maxArticles'', - 30)])) = Inr p"
    and "start_urls p = []"
    by auto
  with ev show ?thesis by simp
qed

section \<open>Properties of the handlers\<close>

subsection \<open>The three ways through the article handler\<close>

text \<open>
  The handler has three paths: content missing or empty (no request to the model), the
  request raising, and the request returning. Each lemma gives the result and the world
  on one path.
\<close>

lemma truthy_iff: "truthy c \<longleftrightarrow> c \<noteq> None \<and> c \<noteq> Some []"
  by (simp add: truthy_def split: option.splits)

lemma text_case: "(case x of Some el \<Rightarrow> Some (get_text el) | None \<Rightarrow> None) = map_option get_text x"
  by (simp split: option.splits)

lemma article_falsy:
  assumes "\<not> truthy (map_option get_text (content_el p))"
  shows "request_handler_ARTICLE client p w =
     (Inr (),
      push_data \<lparr>title = map_option get_text (title_el p),
                 content = map_option get_text (content_el p),
                 url = request_url p, summary = None\<rparr>
        (log_info (''Processing article '' @ request_url p @ '' ...'') w))"
  using assms by (simp add: request_handler_ARTICLE_def text_case Let_def)

lemma article_raises:
  assumes "truthy (map_option get_text (content_el p))"
    and "client ''gpt-4.1-mini'' (prompt (map_option get_text (content_el p))) = Inl e"
  shows "request_handler_ARTICLE client p w =
     (Inl e,
      snd (responses_create client ''gpt-4.1-mini'' (prompt (map_option get_text (content_el p)))
        (log_info (''Processing article '' @ request_url p @ '' ...'') w)))"
  using assms by (simp add: request_handler_ARTICLE_def text_case Let_def responses_create_def)

lemma article_summarised:
  assumes "truthy (map_option get_text (content_el p))"
    and "client ''gpt-4.1-mini'' (prompt (map_option get_text (content_el p))) = Inr r"
  shows "request_handler_ARTICLE client p w =
     (Inr (),
      charge ''article_summary''
        (push_data \<lparr>title = map_option get_text (title_el p),
                    content = map_option get_text (content_el p),
                    url = request_url p, summary = Some (output_text r)\<rparr>
          (snd (responses_create client ''gpt-4.1-mini'' (prompt (map_option get_text (content_el p)))
            (log_info (''Processing article '' @ request_url p @ '' ...'') w)))))"
  using assms by (simp add: request_handler_ARTICLE_def text_case Let_def responses_create_def)

lemmas effects = log_info_def push_data_def charge_def responses_create_def

lemma prompt_contains: "\<exists>pre post. prompt (Some s) = pre @ s @ post"
  unfolding prompt_def format_value_def option.case
  by (metis append.assoc)

lemma story_matcher_a: "story_matcher ''https://www.wired.com/story/**'' ''https://www.wired.com/story/a''"
  by (simp add: story_matcher_def)

lemma story_matcher_about: "\<not> story_matcher ''https://www.wired.com/story/**'' ''https://www.wired.com/about''"
  by (simp add: story_matcher_def)

subsection \<open>Billing\<close>

text \<open>
  Claim C1 as the spec states it: the event \<^verbatim>\<open>article_summary\<close> is charged exactly once
  whenever the content is not null, also when the summarizer fails afterwards. On a page
  with content \<^verbatim>\<open>Body\<close> and a client that raises, nothing is charged: the exception
  leaves the handler before line 108.
\<close>

theorem article_charge_counterexample:
  "content_el story_page = Some (Element ''Body'')
   \<and> charged (snd (request_handler_ARTICLE failing_client story_page no_world)) = []"
  by (simp add: article_raises truthy_def story_page_def failing_client_def no_world_def effects)

text \<open>
  Claim C1, amended. The article handler charges \<^verbatim>\<open>article_summary\<close> exactly once if
  the extracted content is neither null nor empty and the summarizer call returns, and
  does not charge at all otherwise (content null, content empty, or the summarizer
  raising).
\<close>

theorem article_charge:
  assumes "c = map_option get_text (content_el p)"
  shows "charged (snd (request_handler_ARTICLE client p w)) =
     (if c \<noteq> None \<and> c \<noteq> Some [] \<and> (\<exists>r. client ''gpt-4.1-mini'' (prompt c) = Inr r)
      then charged w @ [''article_summary'']
      else charged w)"
proof (cases "truthy c")
  case False
  then show ?thesis
    using assms by (auto simp: article_falsy effects truthy_iff)
next
  case True
  show ?thesis
  proof (cases "client ''gpt-4.1-mini'' (prompt c)")
    case (Inl e)
    with True show ?thesis
      using assms by (auto simp: article_raises effects truthy_iff)
  next
    case (Inr r)
    with True show ?thesis
      using assms by (auto simp: article_summarised effects truthy_iff)
  qed
qed

theorem article_charge_witness:
  "charged (snd (request_handler_ARTICLE fixed_client story_page no_world)) = [''article_summary'']
   \<and> charged (snd (request_handler_ARTICLE fixed_client blank_page no_world)) = []
   \<and> charged (snd (request_handler_ARTICLE fixed_client bare_page no_world)) = []"
proof -
  have "charged (snd (request_handler_ARTICLE fixed_client story_page no_world)) = [''article_summary'']"
    using article_charge [of "Some ''Body''" story_page fixed_client no_world]
    by (simp add: story_page_def fixed_client_def no_world_def)
  moreover have "charged (snd (request_handler_ARTICLE fixed_client blank_page no_world)) = []"
    using article_charge [of "Some []" blank_page fixed_client no_world]
    by (simp add: blank_page_def no_world_def)
  moreover have "charged (snd (request_handler_ARTICLE fixed_client bare_page no_world)) = []"
    using article_charge [of None bare_page fixed_client no_world]
    by (simp add: bare_page_def no_world_def)
  ultimately show ?thesis by simp
qed

subsection \<open>A failing summarizer\<close>




subsection \<open>The record emitted\<close>

text \<open>
  Claim C4 as the spec states it: one record is emitted for every article page, and the
  summarizer is called whenever the content is not null. A page whose content element
  has empty text has content that is not null, and no call is made for it; and on a
  page with content and a client that raises, no record is emitted.
\<close>

theorem article_record_counterexample:
  "content_el blank_page = Some (Element '''')
   \<and> llm_calls (snd (request_handler_ARTICLE fixed_client blank_page no_world)) = []
   \<and> dataset (snd (request_handler_ARTICLE failing_client story_page no_world)) = []"
  by (simp add: article_raises article_falsy truthy_def story_page_def blank_page_def
      failing_client_def no_world_def effects)

text \<open>
  Claim C4, amended. With \<open>t\<close> and \<open>c\<close> the extracted title and content of the page:
  when \<open>c\<close> is null or empty the handler returns normally, makes no summarizer call and
  emits exactly one record \<open>{title = t, content = c, url = page.url, summary = null}\<close>;
  when \<open>c\<close> is a non-empty text the handler makes exactly one summarizer call, with a
  prompt that contains the text literally; if the call returns, the handler emits
  exactly one record, with the output text as summary, and if the call raises it emits
  no record.
\<close>

theorem article_record:
  assumes "t = map_option get_text (title_el p)" and "c = map_option get_text (content_el p)"
  shows
    "(c = None \<or> c = Some [] \<longrightarrow>
        fst (request_handler_ARTICLE client p w) = Inr ()
        \<and> dataset (snd (request_handler_ARTICLE client p w)) =
            dataset w @ [\<lparr>title = t, content = c, url = request_url p, summary = None\<rparr>]
        \<and> llm_calls (snd (request_handler_ARTICLE client p w)) = llm_calls w)
     \<and> (\<forall>s. c = Some s \<and> s \<noteq> [] \<longrightarrow>
          llm_calls (snd (request_handler_ARTICLE client p w)) =
            llm_calls w @ [(''gpt-4.1-mini'', prompt c)]
          \<and> (\<exists>pre post. prompt c = pre @ s @ post)
          \<and> (\<forall>r. client ''gpt-4.1-mini'' (prompt c) = Inr r \<longrightarrow>
                fst (request_handler_ARTICLE client p w) = Inr ()
                \<and> dataset (snd (request_handler_ARTICLE client p w)) =
                    dataset w @ [\<lparr>title = t, content = c, url = request_url p,
                                  summary = Some (output_text r)\<rparr>])
          \<and> (\<forall>e. client ''gpt-4.1-mini'' (prompt c) = Inl e \<longrightarrow>
                fst (request_handler_ARTICLE client p w) = Inl e
                \<and> dataset (snd (request_handler_ARTICLE client p w)) = dataset w))"
proof (intro conjI impI allI)
  assume "c = None \<or> c = Some []"
  then have f: "\<not> truthy (map_option get_text (content_el p))"
    using assms(2) by (auto simp: truthy_def)
  show "fst (request_handler_ARTICLE client p w) = Inr ()"
    by (simp add: article_falsy [OF f])
  show "dataset (snd (request_handler_ARTICLE client p w)) =
      dataset w @ [\<lparr>title = t, content = c, url = request_url p, summary = None\<rparr>]"
    using assms by (simp add: article_falsy [OF f] effects)
  show "llm_calls (snd (request_handler_ARTICLE client p w)) = llm_calls w"
    by (simp add: article_falsy [OF f] effects)
next
  fix s assume s: "c = Some s \<and> s \<noteq> []"
  then have tr: "truthy (map_option get_text (content_el p))"
    using assms(2) by (auto simp: truthy_def)
  show "\<exists>pre post. prompt c = pre @ s @ post"
    using s prompt_contains by simp
  show "llm_calls (snd (request_handler_ARTICLE client p w)) =
      llm_calls w @ [(''gpt-4.1-mini'', prompt c)]"
  proof (cases "client ''gpt-4.1-mini'' (prompt c)")
    case (Inl e)
    then show ?thesis using assms(2) by (simp add: article_raises [OF tr] effects)
  next
    case (Inr r)
    then show ?thesis using assms(2) by (simp add: article_summarised [OF tr] effects)
  qed
  {
    fix r assume "client ''gpt-4.1-mini'' (prompt c) = Inr r"
    then have r: "client ''gpt-4.1-mini'' (prompt (map_option get_text (content_el p))) = Inr r"
      using assms(2) by simp
    show "fst (request_handler_ARTICLE client p w) = Inr ()"
      by (simp add: article_summarised [of p client r, OF tr r])
    show "dataset (snd (request_handler_ARTICLE client p w)) =
        dataset w @ [\<lparr>title = t, content = c, url = request_url p, summary = Some (output_text r)\<rparr>]"
      using assms by (simp add: article_summarised [of p client r, OF tr r] effects)
  }
  {
    fix e assume "client ''gpt-4.1-mini'' (prompt c) = Inl e"
    then have e: "client ''gpt-4.1-mini'' (prompt (map_option get_text (content_el p))) = Inl e"
      using assms(2) by simp
    show "fst (request_handler_ARTICLE client p w) = Inl e"
      by (simp add: article_raises [of p client e, OF tr e])
    show "dataset (snd (request_handler_ARTICLE client p w)) = dataset w"
      by (simp add: article_raises [of p client e, OF tr e] effects)
  }
qed

theorem article_record_witness:
  "dataset (snd (request_handler_ARTICLE fixed_client bare_page no_world)) =
     [\<lparr>title = Some ''C'', content = None, url = ''https://www.wired.com/story/c'', summary = None\<rparr>]
   \<and> llm_calls (snd (request_handler_ARTICLE fixed_client bare_page no_world)) = []
   \<and> dataset (snd (request_handler_ARTICLE fixed_client story_page no_world)) =
     [\<lparr>title = Some ''A'', content = Some ''Body'', url = ''https://www.wired.com/story/a'',
       summary = Some ''Three sentences.''\<rparr>]
   \<and> llm_calls (snd (request_handler_ARTICLE fixed_client story_page no_world)) =
     [(''gpt-4.1-mini'', prompt (Some ''Body''))]
   \<and> dataset (snd (request_handler_ARTICLE failing_client story_page no_world)) = []"
proof -
  have a: "dataset (snd (request_handler_ARTICLE fixed_client bare_page no_world)) =
     [\<lparr>title = Some ''C'', content = None, url = ''https://www.wired.com/story/c'', summary = None\<rparr>]
   \<and> llm_calls (snd (request_handler_ARTICLE fixed_client bare_page no_world)) = []"
    using article_record [of "Some ''C''" bare_page None fixed_client no_world]
    by (simp add: bare_page_def no_world_def)
  have b: "dataset (snd (request_handler_ARTICLE fixed_client story_page no_world)) =
     [\<lparr>title = Some ''A'', content = Some ''Body'', url = ''https://www.wired.com/story/a'',
       summary = Some ''Three sentences.''\<rparr>]
   \<and> llm_calls (snd (request_handler_ARTICLE fixed_client story_page no_world)) =
     [(''gpt-4.1-mini'', prompt (Some ''Body''))]"
    using article_record [of "Some ''A''" story_page "Some ''Body''" fixed_client no_world]
    by (simp add: story_page_def no_world_def fixed_client_def)
  have c: "dataset (snd (request_handler_ARTICLE failing_client story_page no_world)) = []"
    using article_record [of "Some ''A''" story_page "Some ''Body''" failing_client no_world]
    by (simp add: story_page_def no_world_def failing_client_def)
  from a b c show ?thesis by simp
qed

subsection \<open>The listing handler\<close>

text \<open>
  Claim C5. The listing handler returns normally on every page, and the world after it
  is the world before it with one log line added and, appended to the queue, the links
  of the page that match the pattern \<^verbatim>\<open>https://www.wired.com/story/**\<close> (on the origin
  of the base URL), each with the label \<^verbatim>\<open>ARTICLE\<close>. So it emits no record, charges
  nothing and makes no request to the language model; and when no link matches, the
  queue is unchanged and the handler still returns normally.
\<close>

theorem listing_handler_effects:
  "request_handler glob_match p w =
     (Inr (),
      w\<lparr>logged := logged w @ [''Scraping '' @ request_url p @ ''...''],
        queue := queue w @ map (\<lambda>l. (l, Some ''ARTICLE''))
                  (filter (glob_match (''https://www.wired.com'' @ ''/story/**'')) (links p))\<rparr>)
   \<and> dataset (snd (request_handler glob_match p w)) = dataset w
   \<and> charged (snd (request_handler glob_match p w)) = charged w
   \<and> llm_calls (snd (request_handler glob_match p w)) = llm_calls w
   \<and> base_url = ''https://www.wired.com'' @ ''/tag/programming''
   \<and> ((\<forall>l \<in> set (links p). \<not> glob_match ''https://www.wired.com/story/**'' l) \<longrightarrow>
        fst (request_handler glob_match p w) = Inr ()
        \<and> queue (snd (request_handler glob_match p w)) = queue w)"
proof -
  have run: "request_handler glob_match p w =
     (Inr (),
      w\<lparr>logged := logged w @ [''Scraping '' @ request_url p @ ''...''],
        queue := queue w @ map (\<lambda>l. (l, Some ''ARTICLE''))
                  (filter (glob_match ''https://www.wired.com/story/**'') (links p))\<rparr>)"
    by (simp add: request_handler_def enqueue_links_def log_info_def Let_def)
  have none: "(\<forall>l \<in> set (links p). \<not> glob_match ''https://www.wired.com/story/**'' l) \<longrightarrow>
        fst (request_handler glob_match p w) = Inr ()
        \<and> queue (snd (request_handler glob_match p w)) = queue w"
    unfolding run by (simp add: filter_empty_conv)
  have rest:
    "dataset (snd (request_handler glob_match p w)) = dataset w"
    "charged (snd (request_handler glob_match p w)) = charged w"
    "llm_calls (snd (request_handler glob_match p w)) = llm_calls w"
    unfolding run by simp_all
  from run none rest show ?thesis by (simp add: base_url_def)
qed

theorem listing_handler_effects_witness:
  "queue (snd (request_handler story_matcher listing_page no_world)) =
      [(''https://www.wired.com/story/a'', Some ''ARTICLE'')]
   \<and> fst (request_handler story_matcher plain_page no_world) = Inr ()
   \<and> queue (snd (request_handler story_matcher plain_page no_world)) = []
   \<and> dataset (snd (request_handler story_matcher plain_page no_world)) = []
   \<and> charged (snd (request_handler story_matcher plain_page no_world)) = []"
proof -
  have a: "queue (snd (request_handler story_matcher listing_page no_world)) =
      [(''https://www.wired.com/story/a'', Some ''ARTICLE'')]"
    using listing_handler_effects [of story_matcher listing_page no_world]
      story_matcher_a story_matcher_about
    by (simp add: listing_page_def no_world_def base_url_def)
  have b: "fst (request_handler story_matcher plain_page no_world) = Inr ()
   \<and> queue (snd (request_handler story_matcher plain_page no_world)) = []
   \<and> dataset (snd (request_handler story_matcher plain_page no_world)) = []
   \<and> charged (snd (request_handler story_matcher plain_page no_world)) = []"
    using listing_handler_effects [of story_matcher plain_page no_world]
      story_matcher_about
    by (simp add: plain_page_def no_world_def base_url_def)
  from a b show ?thesis by simp
qed

subsection \<open>Content that is present and empty\<close>

text \<open>
  Claim C9. When the content element is present and its text is the empty string, the
  handler makes no summarizer call, emits one record with content the empty string and
  a null summary, and charges nothing: its only changes to the world are the log line
  and that record.
\<close>

theorem article_blank_content:
  assumes "content_el p = Some el" and "get_text el = []"
  shows "request_handler_ARTICLE client p w =
     (Inr (),
      w\<lparr>logged := logged w @ [''Processing article '' @ request_url p @ '' ...''],
        dataset := dataset w @
          [\<lparr>title = map_option get_text (title_el p), content = Some [],
            url = request_url p, summary = None\<rparr>]\<rparr>)
     \<and> llm_calls (snd (request_handler_ARTICLE client p w)) = llm_calls w
     \<and> charged (snd (request_handler_ARTICLE client p w)) = charged w"
proof -
  have f: "\<not> truthy (map_option get_text (content_el p))"
    using assms by (simp add: truthy_def)
  show ?thesis
    using assms by (simp add: article_falsy [OF f] effects)
qed

theorem article_blank_content_witness:
  "content_el blank_page = Some (Element '''') \<and> get_text (Element '''') = []
   \<and> request_handler_ARTICLE fixed_client blank_page no_world =
       (Inr (),
        \<lparr>logged = [''Processing article https://www.wired.com/story/b ...''],
         queue = [], llm_calls = [],
         dataset = [\<lparr>title = Some ''B'', content = Some [],
                     url = ''https://www.wired.com/story/b'', summary = None\<rparr>],
         charged = []\<rparr>)"
  using article_blank_content [of blank_page "Element ''''" fixed_client no_world]
  by (simp add: blank_page_def no_world_def)

subsection \<open>No summary without content\<close>

text \<open>
  Claim C10. Whatever the client, the page and the world, the article handler appends at
  most one record to the dataset, and a record it appends has a summary only if its
  content is neither null nor empty.
\<close>

theorem emitted_summary_has_content:
  "\<exists>rs. dataset (snd (request_handler_ARTICLE client p w)) = dataset w @ rs
        \<and> length rs \<le> 1
        \<and> (\<forall>r \<in> set rs. summary_has_content r)"
proof (cases "truthy (map_option get_text (content_el p))")
  case False
  then show ?thesis
    by (simp add: article_falsy effects summary_has_content_def)
next
  case True
  show ?thesis
  proof (cases "client ''gpt-4.1-mini'' (prompt (map_option get_text (content_el p)))")
    case (Inl e)
    show ?thesis
      by (simp add: article_raises [of p client e, OF True Inl] effects)
  next
    case (Inr r)
    show ?thesis
      using True
      by (simp add: article_summarised [of p client r, OF True Inr] effects
          summary_has_content_def truthy_iff)
  qed
qed

theorem emitted_summary_has_content_witness:
  "dataset (snd (request_handler_ARTICLE fixed_client story_page no_world)) =
     [\<lparr>title = Some ''A'', content = Some ''Body'', url = ''https://www.wired.com/story/a'',
       summary = Some ''Three sentences.''\<rparr>]
   \<and> summary_has_content \<lparr>title = Some ''A'', content = Some ''Body'',
        url = ''https://www.wired.com/story/a'', summary = Some ''Three sentences.''\<rparr>"
proof -
  have ev: "dataset (snd (request_handler_ARTICLE fixed_client story_page no_world)) =
     [\<lparr>title = Some ''A'', content = Some ''Body'', url = ''https://www.wired.com/story/a'',
       summary = Some ''Three sentences.''\<rparr>]"
    by (simp add: article_summarised truthy_def story_page_def fixed_client_def no_world_def effects)
  from emitted_summary_has_content [of fixed_client story_page no_world]
  obtain rs where rs: "dataset (snd (request_handler_ARTICLE fixed_client story_page no_world)) =
      dataset no_world @ rs" and ok: "\<forall>r \<in> set rs. summary_has_content r"
    by auto
  from rs ev have "rs = [\<lparr>title = Some ''A'', content = Some ''Body'',
      url = ''https://www.wired.com/story/a'', summary = Some ''Three sentences.''\<rparr>]"
    by (simp add: no_world_def)
  with ok have "summary_has_content \<lparr>title = Some ''A'', content = Some ''Body'',
      url = ''https://www.wired.com/story/a'', summary = Some ''Three sentences.''\<rparr>"
    by simp
  with ev show ?thesis by simp
qed

section \<open>The request budget\<close>




end
